theory Spec2Isabelle
  imports Complex_Main
begin

section \<open>The component of app.component.ts and its host\<close>

text \<open>
  \<open>AppComponent\<close> owns three signals, \<open>progress\<close>, \<open>loading\<close> and
  \<open>inAngularZone\<close>. Its method \<open>runOutsideAngular\<close> starts a loop of 3000 units of
  work; the nested function \<open>step\<close> is one unit, and re-registers itself with
  \<open>requestAnimationFrame\<close> until the counter reaches the total.

  The model is a state-passing one. A \<open>world\<close> holds the signals, the zone of the
  code that is executing, the variables \<open>i\<close> of the runs that were started (one
  cell per call of \<open>runOutsideAngular\<close>, as each call declares its own
  \<open>let i\<close>), the callbacks registered for the next animation frame, and a trace
  of every write to a signal.
\<close>

subsection \<open>Data\<close>

text \<open>The three signals of the component (lines 17, 23 and 32).\<close>

record component =
  progress :: int
  loading :: bool
  inAngularZone :: bool

text \<open>
  The place in the source that performs a write: the body of \<open>runOutsideAngular\<close>
  before the first unit (lines 96 to 98), the body of \<open>step\<close> outside any callback
  (line 110), the callback of the periodic \<open>NgZone.run\<close> (lines 116 to 119) and the
  callback of the final one (lines 129 to 132).
\<close>

datatype site = Start | Work | Checkpoint | Completion

datatype change = Progress int | Loading bool | InZone bool

text \<open>
  One entry of the trace: a \<open>set\<close> of a signal, where it was made, and the value of
  the counter \<open>i\<close> at that moment (0 before the first unit).
\<close>

record event =
  ev_site :: site
  ev_iter :: nat
  ev_write :: change

text \<open>
  The source has no \<open>throw\<close> and no \<open>try\<close>. What can throw are the calls the
  periodic callback makes; \<open>point\<close> names the call, \<open>Thrown n p\<close> is the exception
  of call \<open>p\<close> in the callback of iteration \<open>n\<close>.
\<close>

datatype point = AtLog | AtSet | AtCheckZone | AtSetTimeout

datatype exn = Thrown nat point

text \<open>
  The constants of a run. The source fixes \<open>total\<close> to 3000 (line 101) and the
  cadence to 500 (line 113); both are parameters here. \<open>cfg_throws n\<close> says which
  call of the periodic callback of iteration \<open>n\<close> throws, if any.
\<close>

record config =
  cfg_total :: nat
  cfg_cadence :: nat
  cfg_throws :: "nat \<Rightarrow> point option"

text \<open>
  A \<open>step\<close> closure registered with \<open>requestAnimationFrame\<close>: the cell of the
  variable \<open>i\<close> it captured, and the zone it was registered in.
\<close>

record task =
  cell :: nat
  task_zone :: bool

record world =
  outputs :: component
  zone :: bool
  vars :: "nat list"
  frames :: "task list"
  timeouts :: nat
  uncaught :: "exn list"
  trace :: "event list"

type_synonym result = "(exn \<times> world) + world"

subsection \<open>Signals and the zone\<close>

definition emit :: "site \<Rightarrow> nat \<Rightarrow> change \<Rightarrow> world \<Rightarrow> world" where
  "emit s n x w = w\<lparr>trace := trace w @ [\<lparr>ev_site = s, ev_iter = n, ev_write = x\<rparr>]\<rparr>"

definition progress_set :: "int \<Rightarrow> world \<Rightarrow> world" where
  "progress_set v w = w\<lparr>outputs := (outputs w)\<lparr>progress := v\<rparr>\<rparr>"

definition loading_set :: "bool \<Rightarrow> world \<Rightarrow> world" where
  "loading_set b w = w\<lparr>outputs := (outputs w)\<lparr>loading := b\<rparr>\<rparr>"

text \<open>
  Modelled from the spec: \<open>NgZone\<close> is Angular's, not this repository's. The spec's
  Boundary Controller gives its contract: \<open>runOutside fn\<close> and \<open>runInside fn\<close> execute
  \<open>fn\<close> at once, to completion, in a context flagged as outside or inside the boundary,
  and \<open>isInsideBoundary\<close> is a query with no side effect. The flag of the caller is
  back when the primitive returns, also when \<open>fn\<close> throws.
\<close>

definition isInAngularZone :: "world \<Rightarrow> bool" where
  "isInAngularZone w = zone w"

definition in_zone :: "bool \<Rightarrow> (world \<Rightarrow> result) \<Rightarrow> world \<Rightarrow> result" where
  "in_zone z fn w =
     (case fn (w\<lparr>zone := z\<rparr>) of
        Inl (x, w') \<Rightarrow> Inl (x, w'\<lparr>zone := zone w\<rparr>)
      | Inr w' \<Rightarrow> Inr (w'\<lparr>zone := zone w\<rparr>))"

definition ngZone_run :: "(world \<Rightarrow> result) \<Rightarrow> world \<Rightarrow> result" where
  "ngZone_run = in_zone True"

definition ngZone_runOutsideAngular :: "(world \<Rightarrow> result) \<Rightarrow> world \<Rightarrow> result" where
  "ngZone_runOutsideAngular = in_zone False"

text \<open>Lines 78 to 80.\<close>

definition checkZone :: "world \<Rightarrow> world" where
  "checkZone w = w\<lparr>outputs := (outputs w)\<lparr>inAngularZone := isInAngularZone w\<rparr>\<rparr>"

text \<open>
  Line 114. \<open>Math.round\<close> rounds to the nearest integer, a half upwards. The quotient
  is taken in the rationals; at the constants of the source (and at 10 and 5) no value
  is near a half, where the doubles of the source could round differently. A total of 0
  is outside the model: the quotient of the source is then infinite or not a number.
\<close>

definition Math_round :: "rat \<Rightarrow> int" where
  "Math_round x = \<lfloor>x + 1 / 2\<rfloor>"

definition percent :: "config \<Rightarrow> nat \<Rightarrow> int" where
  "percent c n = Math_round ((of_nat n / of_nat (cfg_total c)) * 100)"

subsection \<open>The loop\<close>

text \<open>
  Modelled from the spec: \<open>requestAnimationFrame\<close> is the host's frame-pacing
  primitive. The callback runs later, once, in the zone it was registered in.
\<close>

definition requestAnimationFrame :: "nat \<Rightarrow> world \<Rightarrow> world" where
  "requestAnimationFrame a w = w\<lparr>frames := frames w @ [\<lparr>cell = a, task_zone = zone w\<rparr>]\<rparr>"

text \<open>
  The callback of lines 115 to 120, for iteration \<open>n\<close> and the value \<open>p\<close> computed
  before it. The timer of line 119 has an empty callback: it is only counted.
\<close>

definition periodic :: "config \<Rightarrow> nat \<Rightarrow> int \<Rightarrow> world \<Rightarrow> result" where
  "periodic c n p w =
     (if cfg_throws c n = Some AtLog then Inl (Thrown n AtLog, w)
      else if cfg_throws c n = Some AtSet then Inl (Thrown n AtSet, w)
      else let w1 = emit Checkpoint n (Progress p) (progress_set p w) in
        if cfg_throws c n = Some AtCheckZone then Inl (Thrown n AtCheckZone, w1)
        else let w2 = checkZone w1;
                 w3 = emit Checkpoint n (InZone (inAngularZone (outputs w2))) w2 in
          if cfg_throws c n = Some AtSetTimeout then Inl (Thrown n AtSetTimeout, w3)
          else Inr (w3\<lparr>timeouts := timeouts w3 + 1\<rparr>))"

text \<open>The callback of lines 128 to 133.\<close>

definition completion :: "nat \<Rightarrow> world \<Rightarrow> world" where
  "completion n w =
     (let w1 = emit Completion n (Loading False) (loading_set False w);
          w2 = emit Completion n (Progress 100) (progress_set 100 w1);
          w3 = checkZone w2
      in emit Completion n (InZone (inAngularZone (outputs w3))) w3)"

text \<open>
  \<open>step\<close>, lines 108 to 135, for the closure whose variable \<open>i\<close> is the cell \<open>a\<close>.
  The cell of a closure exists (\<open>a < length (vars w)\<close>): \<open>runOutsideAngular\<close> declares it
  before it makes the closure, and no cell is ever removed. An exception of the periodic
  callback leaves \<open>step\<close> at line 120: the lines after it do not run.
\<close>

definition step :: "config \<Rightarrow> nat \<Rightarrow> world \<Rightarrow> result" where
  "step c a w =
     (let w1 = w\<lparr>vars := (vars w)[a := vars w ! a + 1]\<rparr>;
          n = vars w1 ! a;
          w2 = checkZone w1;
          w3 = emit Work n (InZone (inAngularZone (outputs w2))) w2;
          r = (if n mod cfg_cadence c = 0
               then ngZone_run (periodic c n (percent c n)) w3
               else Inr w3)
      in case r of
           Inl x \<Rightarrow> Inl x
         | Inr w4 \<Rightarrow>
             if n < cfg_total c then Inr (requestAnimationFrame a w4)
             else ngZone_run (\<lambda>v. Inr (completion n v)) w4)"

text \<open>\<open>runOutsideAngular\<close>, lines 93 to 139.\<close>

definition runOutsideAngular :: "config \<Rightarrow> world \<Rightarrow> result" where
  "runOutsideAngular c w =
     ngZone_runOutsideAngular
       (\<lambda>v. let v1 = checkZone v;
                v2 = emit Start 0 (InZone (inAngularZone (outputs v1))) v1;
                v3 = emit Start 0 (Loading True) (loading_set True v2);
                v4 = emit Start 0 (Progress 0) (progress_set 0 v3);
                a = length (vars v4);
                v5 = v4\<lparr>vars := vars v4 @ [0]\<rparr>
             in step c a v5) w"

subsection \<open>The host\<close>

text \<open>
  The host calls the component: the view calls \<open>runOutsideAngular\<close> (the command
  "start run"), and each animation frame calls the callbacks registered before it, in
  order, each in its zone. An exception that leaves a call is caught by nobody in the
  source: the host records it and goes on.
\<close>

definition settle :: "result \<Rightarrow> world" where
  "settle r = (case r of Inl (x, w) \<Rightarrow> w\<lparr>uncaught := uncaught w @ [x]\<rparr> | Inr w \<Rightarrow> w)"

definition start_run :: "config \<Rightarrow> world \<Rightarrow> world" where
  "start_run c w = settle (runOutsideAngular c w)"

definition invoke :: "config \<Rightarrow> task \<Rightarrow> world \<Rightarrow> world" where
  "invoke c t w = settle (in_zone (task_zone t) (step c (cell t)) w)"

fun run_callbacks :: "config \<Rightarrow> task list \<Rightarrow> world \<Rightarrow> world" where
  "run_callbacks c [] w = w"
| "run_callbacks c (t # ts) w = run_callbacks c ts (invoke c t w)"

definition animationFrame :: "config \<Rightarrow> world \<Rightarrow> world" where
  "animationFrame c w = run_callbacks c (frames w) (w\<lparr>frames := []\<rparr>)"

text \<open>A run observed for \<open>k\<close> animation frames after the command.\<close>

definition run_for :: "config \<Rightarrow> nat \<Rightarrow> world \<Rightarrow> world" where
  "run_for c k w = (animationFrame c ^^ k) (start_run c w)"

text \<open>What a run added to the trace.\<close>

definition events_since :: "world \<Rightarrow> world \<Rightarrow> event list" where
  "events_since w w' = drop (length (trace w)) (trace w')"

text \<open>
  The component as its constructor leaves it (lines 51 to 54): the signals at their
  initial values, \<open>checkZone\<close> called inside Angular's zone, nothing started.
\<close>

definition initial :: world where
  "initial = checkZone
     \<lparr>outputs = \<lparr>progress = 0, loading = False, inAngularZone = True\<rparr>,
      zone = True, vars = [], frames = [], timeouts = 0, uncaught = [], trace = []\<rparr>"

text \<open>A configuration in which no call throws.\<close>

definition quiet :: "nat \<Rightarrow> nat \<Rightarrow> config" where
  "quiet t k = \<lparr>cfg_total = t, cfg_cadence = k, cfg_throws = (\<lambda>n. None)\<rparr>"

text \<open>The constants of the source, and those of the spec's scenario.\<close>

definition source_config :: config where
  "source_config = quiet 3000 500"

definition scenario_config :: config where
  "scenario_config = quiet 10 5"

subsection \<open>What one unit and one run write\<close>

text \<open>The writes of the unit that brings the counter to \<open>n\<close>, when nothing throws.\<close>

definition step_events :: "config \<Rightarrow> nat \<Rightarrow> event list" where
  "step_events c n =
     \<lparr>ev_site = Work, ev_iter = n, ev_write = InZone False\<rparr> #
     (if n mod cfg_cadence c = 0
      then [\<lparr>ev_site = Checkpoint, ev_iter = n, ev_write = Progress (percent c n)\<rparr>,
            \<lparr>ev_site = Checkpoint, ev_iter = n, ev_write = InZone True\<rparr>]
      else []) @
     (if n < cfg_total c then []
      else [\<lparr>ev_site = Completion, ev_iter = n, ev_write = Loading False\<rparr>,
            \<lparr>ev_site = Completion, ev_iter = n, ev_write = Progress 100\<rparr>,
            \<lparr>ev_site = Completion, ev_iter = n, ev_write = InZone True\<rparr>])"

text \<open>The writes of lines 96 to 98.\<close>

definition start_events :: "event list" where
  "start_events =
     [\<lparr>ev_site = Start, ev_iter = 0, ev_write = InZone False\<rparr>,
      \<lparr>ev_site = Start, ev_iter = 0, ev_write = Loading True\<rparr>,
      \<lparr>ev_site = Start, ev_iter = 0, ev_write = Progress 0\<rparr>]"

text \<open>
  \<open>w'\<close> is \<open>w\<close> after one unit of the closure at cell \<open>a\<close>, which brought the
  counter to \<open>n\<close> without throwing.
\<close>

definition unit_done :: "config \<Rightarrow> nat \<Rightarrow> nat \<Rightarrow> world \<Rightarrow> world \<Rightarrow> bool" where
  "unit_done c a n w w' \<longleftrightarrow>
     vars w' = (vars w)[a := n] \<and>
     frames w' = (if n < cfg_total c then frames w @ [\<lparr>cell = a, task_zone = False\<rparr>] else frames w) \<and>
     trace w' = trace w @ step_events c n \<and>
     loading (outputs w') = (n < cfg_total c \<and> loading (outputs w)) \<and>
     inAngularZone (outputs w') = (n mod cfg_cadence c = 0 \<or> \<not> n < cfg_total c) \<and>
     progress (outputs w') =
       (if \<not> n < cfg_total c then 100
        else if n mod cfg_cadence c = 0 then percent c n else progress (outputs w)) \<and>
     uncaught w' = uncaught w"

text \<open>\<open>w'\<close> is \<open>w\<close> after a unit whose periodic callback threw.\<close>

definition unit_thrown :: "nat \<Rightarrow> nat \<Rightarrow> point \<Rightarrow> world \<Rightarrow> world \<Rightarrow> bool" where
  "unit_thrown a n p w w' \<longleftrightarrow>
     vars w' = (vars w)[a := n] \<and>
     frames w' = frames w \<and>
     loading (outputs w') = loading (outputs w) \<and>
     uncaught w' = uncaught w @ [Thrown n p]"

text \<open>\<open>v\<close> is \<open>w\<close> after lines 96 to 100, before the first call of \<open>step\<close>.\<close>

definition prepared :: "world \<Rightarrow> world \<Rightarrow> bool" where
  "prepared w v \<longleftrightarrow>
     vars v = vars w @ [0] \<and> frames v = frames w \<and>
     trace v = trace w @ start_events \<and> uncaught v = uncaught w \<and>
     outputs v = \<lparr>progress = 0, loading = True, inAngularZone = False\<rparr>"

text \<open>
  \<open>w'\<close> is a run started in \<open>w\<close> that has done \<open>m\<close> units and waits for the next
  frame.
\<close>

definition pending :: "config \<Rightarrow> world \<Rightarrow> nat \<Rightarrow> world \<Rightarrow> bool" where
  "pending c w m w' \<longleftrightarrow>
     vars w' = vars w @ [m] \<and>
     frames w' = [\<lparr>cell = length (vars w), task_zone = False\<rparr>] \<and>
     trace w' = trace w @ start_events @ concat (map (step_events c) [1..<Suc m]) \<and>
     loading (outputs w') \<and>
     inAngularZone (outputs w') = (m mod cfg_cadence c = 0) \<and>
     uncaught w' = uncaught w"

text \<open>The run started in \<open>w\<close> has done all its units.\<close>

definition finished :: "config \<Rightarrow> world \<Rightarrow> world \<Rightarrow> bool" where
  "finished c w w' \<longleftrightarrow>
     vars w' = vars w @ [cfg_total c] \<and>
     frames w' = [] \<and>
     trace w' = trace w @ start_events @ concat (map (step_events c) [1..<Suc (cfg_total c)]) \<and>
     \<not> loading (outputs w') \<and>
     inAngularZone (outputs w') \<and>
     progress (outputs w') = 100 \<and>
     uncaught w' = uncaught w"

text \<open>The run started in \<open>w\<close> ended at unit \<open>n\<close> with an exception.\<close>

definition stuck :: "world \<Rightarrow> nat \<Rightarrow> point \<Rightarrow> world \<Rightarrow> bool" where
  "stuck w n p w' \<longleftrightarrow>
     vars w' = vars w @ [n] \<and> frames w' = [] \<and> loading (outputs w') \<and>
     uncaught w' = uncaught w @ [Thrown n p]"

subsection \<open>Reading a trace\<close>

text \<open>The writes to \<open>progress\<close>, with their site and iteration.\<close>

fun progress_of :: "event \<Rightarrow> (site \<times> nat \<times> int) list" where
  "progress_of e = (case ev_write e of Progress v \<Rightarrow> [(ev_site e, ev_iter e, v)] | _ \<Rightarrow> [])"

definition published :: "event list \<Rightarrow> (site \<times> nat \<times> int) list" where
  "published evs = concat (map progress_of evs)"

text \<open>The publications made while the counter was \<open>n\<close>.\<close>

definition published_at :: "nat \<Rightarrow> event list \<Rightarrow> (site \<times> nat \<times> int) list" where
  "published_at n evs = filter (\<lambda>x. fst (snd x) = n) (published evs)"

text \<open>The writes to \<open>loading\<close>.\<close>

fun loading_of :: "event \<Rightarrow> (site \<times> nat \<times> bool) list" where
  "loading_of e = (case ev_write e of Loading b \<Rightarrow> [(ev_site e, ev_iter e, b)] | _ \<Rightarrow> [])"

definition toggles :: "event list \<Rightarrow> (site \<times> nat \<times> bool) list" where
  "toggles evs = concat (map loading_of evs)"

text \<open>The calls of \<open>checkZone\<close>: where each was made and at which iteration.\<close>

fun requery_of :: "event \<Rightarrow> (site \<times> nat) list" where
  "requery_of e = (case ev_write e of InZone b \<Rightarrow> [(ev_site e, ev_iter e)] | _ \<Rightarrow> [])"

definition requeries :: "event list \<Rightarrow> (site \<times> nat) list" where
  "requeries evs = concat (map requery_of evs)"

text \<open>The calls of \<open>checkZone\<close> that one unit makes.\<close>

definition unit_requeries :: "config \<Rightarrow> nat \<Rightarrow> (site \<times> nat) list" where
  "unit_requeries c n =
     (Work, n) #
     (if n mod cfg_cadence c = 0 then [(Checkpoint, n)] else []) @
     (if n < cfg_total c then [] else [(Completion, n)])"

text \<open>A configuration whose periodic callback throws \<open>p\<close> at iteration \<open>n\<close>, and only there.\<close>

definition faulty :: "nat \<Rightarrow> nat \<Rightarrow> nat \<Rightarrow> point \<Rightarrow> config" where
  "faulty t k n p =
     \<lparr>cfg_total = t, cfg_cadence = k, cfg_throws = (\<lambda>j. if j = n then Some p else None)\<rparr>"

section \<open>One unit of work\<close>

lemmas unit_defs = step_def Let_def checkZone_def isInAngularZone_def emit_def ngZone_run_def in_zone_def
  periodic_def completion_def requestAnimationFrame_def progress_set_def loading_set_def step_events_def

lemma step_quiet:
  assumes "cfg_throws c (Suc (vars w ! a)) = None" "a < length (vars w)"
  shows "unit_done c a (Suc (vars w ! a)) w
    (settle (in_zone False (step c a) w))"
  using assms by (simp add: unit_defs unit_done_def settle_def)

lemma step_throws:
  assumes "cfg_throws c (Suc (vars w ! a)) = Some p" "Suc (vars w ! a) mod cfg_cadence c = 0"
    "a < length (vars w)"
  shows "unit_thrown a (Suc (vars w ! a)) p w
    (settle (in_zone False (step c a) w))"
  using assms by (cases p) (simp_all add: unit_defs unit_thrown_def settle_def)

lemma in_zone_eq:
  assumes "fn (w\<lparr>zone := z\<rparr>) = fn' (w'\<lparr>zone := z\<rparr>)" "zone w = zone w'"
  shows "in_zone z fn w = in_zone z fn' w'"
  unfolding in_zone_def assms ..

lemma start_unfold:
  "\<exists>v. runOutsideAngular c w = in_zone False (step c (length (vars w))) v \<and> prepared w v"
proof (intro exI conjI)
  let ?v = "w\<lparr>outputs := outputs w \<lparr>inAngularZone := False, loading := True, progress := 0\<rparr>,
                     trace := trace w @
                       [\<lparr>ev_site = Start, ev_iter = 0, ev_write = InZone False\<rparr>,
                        \<lparr>ev_site = Start, ev_iter = 0, ev_write = Loading True\<rparr>,
                        \<lparr>ev_site = Start, ev_iter = 0, ev_write = Progress 0\<rparr>],
                     vars := vars w @ [0]\<rparr>"
  show "runOutsideAngular c w = in_zone False (step c (length (vars w))) ?v"
    unfolding runOutsideAngular_def ngZone_runOutsideAngular_def
    apply (rule in_zone_eq)
     apply (simp add: Let_def emit_def progress_set_def loading_set_def checkZone_def isInAngularZone_def)
     apply (rule arg_cong[where f = "step c (length (vars w))"])
     apply simp
    apply simp
    done
  show "prepared w ?v"
    by (simp add: prepared_def start_events_def)
qed

lemma frame_unfold:
  assumes "frames w = [\<lparr>cell = a, task_zone = False\<rparr>]"
  shows "animationFrame c w = settle (in_zone False (step c a) (w\<lparr>frames := []\<rparr>))"
  using assms by (simp add: animationFrame_def invoke_def)
lemma frame_idle: "frames w = [] \<Longrightarrow> animationFrame c w = w"
  by (simp add: animationFrame_def)

lemma start_pending:
  assumes "cfg_throws c (Suc 0) = None" "frames w = []" "Suc 0 < cfg_total c"
  shows "pending c w (Suc 0) (start_run c w)"
proof -
  obtain v where s: "start_run c w = settle (in_zone False (step c (length (vars w))) v)"
    and v: "prepared w v"
    using start_unfold[of c w] unfolding start_run_def by metis
  have "unit_done c (length (vars w)) (Suc (vars v ! length (vars w))) v (start_run c w)"
    unfolding s using v assms by (intro step_quiet) (simp_all add: prepared_def)
  then show ?thesis using v assms
    by (simp add: unit_done_def pending_def prepared_def)
qed

lemma start_finished:
  assumes "cfg_throws c (Suc 0) = None" "frames w = []" "cfg_total c = Suc 0"
  shows "finished c w (start_run c w)"
proof -
  obtain v where s: "start_run c w = settle (in_zone False (step c (length (vars w))) v)"
    and v: "prepared w v"
    using start_unfold[of c w] unfolding start_run_def by metis
  have "unit_done c (length (vars w)) (Suc (vars v ! length (vars w))) v (start_run c w)"
    unfolding s using v assms by (intro step_quiet) (simp_all add: prepared_def)
  then show ?thesis using v assms
    by (simp add: unit_done_def finished_def prepared_def)
qed

lemma start_stuck:
  assumes "cfg_throws c (Suc 0) = Some p" "frames w = []" "Suc 0 mod cfg_cadence c = 0"
  shows "stuck w (Suc 0) p (start_run c w)"
proof -
  obtain v where s: "start_run c w = settle (in_zone False (step c (length (vars w))) v)"
    and v: "prepared w v"
    using start_unfold[of c w] unfolding start_run_def by metis
  have "unit_thrown (length (vars w)) (Suc (vars v ! length (vars w))) p v (start_run c w)"
    unfolding s using v assms by (intro step_throws) (simp_all add: prepared_def)
  then show ?thesis using v assms
    by (simp add: unit_thrown_def stuck_def prepared_def)
qed

lemma frame_pending:
  assumes "pending c w m w'" "cfg_throws c (Suc m) = None" "Suc m < cfg_total c"
  shows "pending c w (Suc m) (animationFrame c w')"
proof -
  let ?u = "w'\<lparr>frames := []\<rparr>"
  have n: "vars ?u ! length (vars w) = m" using assms(1) by (simp add: pending_def)
  have "unit_done c (length (vars w)) (Suc (vars ?u ! length (vars w))) ?u (animationFrame c w')"
    unfolding frame_unfold[of w' "length (vars w)" c, OF assms(1)[unfolded pending_def, THEN conjunct2, THEN conjunct1]]
    using assms by (intro step_quiet) (simp_all add: pending_def)
  then show ?thesis using assms unfolding n
    by (simp add: unit_done_def pending_def)
qed

lemma frame_finished:
  assumes "pending c w m w'" "cfg_throws c (Suc m) = None" "Suc m = cfg_total c"
  shows "finished c w (animationFrame c w')"
proof -
  let ?u = "w'\<lparr>frames := []\<rparr>"
  have n: "vars ?u ! length (vars w) = m" using assms(1) by (simp add: pending_def)
  have "unit_done c (length (vars w)) (Suc (vars ?u ! length (vars w))) ?u (animationFrame c w')"
    unfolding frame_unfold[of w' "length (vars w)" c, OF assms(1)[unfolded pending_def, THEN conjunct2, THEN conjunct1]]
    using assms by (intro step_quiet) (simp_all add: pending_def)
  then show ?thesis using assms unfolding n
    by (simp add: unit_done_def pending_def finished_def)
qed

lemma frame_stuck:
  assumes "pending c w m w'" "cfg_throws c (Suc m) = Some p" "Suc m mod cfg_cadence c = 0"
  shows "stuck w (Suc m) p (animationFrame c w')"
proof -
  let ?u = "w'\<lparr>frames := []\<rparr>"
  have n: "vars ?u ! length (vars w) = m" using assms(1) by (simp add: pending_def)
  have "unit_thrown (length (vars w)) (Suc (vars ?u ! length (vars w))) p ?u (animationFrame c w')"
    unfolding frame_unfold[of w' "length (vars w)" c, OF assms(1)[unfolded pending_def, THEN conjunct2, THEN conjunct1]]
    using assms by (intro step_throws) (simp_all add: pending_def)
  then show ?thesis using assms unfolding n
    by (simp add: unit_thrown_def pending_def stuck_def)
qed

lemma run_for_0: "run_for c 0 w = start_run c w"
  by (simp add: run_for_def)

lemma run_for_Suc: "run_for c (Suc k) w = animationFrame c (run_for c k w)"
  by (simp add: run_for_def)

lemma run_pending:
  assumes "frames w = []" "\<forall>j\<le>Suc k. cfg_throws c j = None" "Suc k < cfg_total c"
  shows "pending c w (Suc k) (run_for c k w)"
  using assms(2,3)
proof (induction k)
  case 0
  then show ?case using assms(1) by (simp add: run_for_0 start_pending)
next
  case (Suc k)
  then have "pending c w (Suc k) (run_for c k w)" by simp
  moreover have "cfg_throws c (Suc (Suc k)) = None" using Suc.prems by simp
  ultimately show ?case using Suc.prems(2) unfolding run_for_Suc by (rule frame_pending)
qed

lemma run_total:
  assumes "frames w = []" "\<forall>j\<le>cfg_total c. cfg_throws c j = None" "0 < cfg_total c"
  shows "finished c w (run_for c (cfg_total c - 1) w)"
proof (cases "cfg_total c = Suc 0")
  case True
  then show ?thesis using assms by (simp add: run_for_0 start_finished)
next
  case False
  then obtain k where k: "cfg_total c = Suc (Suc k)"
    using assms(3) by (metis not0_implies_Suc gr0_implies_Suc)
  have "pending c w (Suc k) (run_for c k w)"
    using assms k by (intro run_pending) simp_all
  moreover have "cfg_throws c (Suc (Suc k)) = None" using assms(2) k by simp
  ultimately have "finished c w (animationFrame c (run_for c k w))"
    using k by (intro frame_finished[where m = "Suc k"]) simp_all
  then show ?thesis by (simp add: k run_for_Suc)
qed

lemma run_idle:
  assumes "frames (run_for c k w) = []"
  shows "run_for c (k + j) w = run_for c k w"
  using assms by (induction j) (simp_all add: run_for_Suc frame_idle)

lemma run_finished:
  assumes "frames w = []" "\<forall>j\<le>cfg_total c. cfg_throws c j = None" "0 < cfg_total c"
    "cfg_total c \<le> Suc k"
  shows "finished c w (run_for c k w)"
proof -
  have f: "finished c w (run_for c (cfg_total c - 1) w)" using assms(1-3) by (rule run_total)
  then have "frames (run_for c (cfg_total c - 1) w) = []" by (simp add: finished_def)
  then have "run_for c (cfg_total c - 1 + (k - (cfg_total c - 1))) w = run_for c (cfg_total c - 1) w"
    by (rule run_idle)
  moreover have "cfg_total c - 1 + (k - (cfg_total c - 1)) = k" using assms(3,4) by simp
  ultimately show ?thesis using f by simp
qed

lemma run_thrown:
  assumes "frames w = []" "\<forall>j<n. cfg_throws c j = None" "cfg_throws c n = Some p"
    "n mod cfg_cadence c = 0" "0 < n" "n \<le> cfg_total c"
  shows "stuck w n p (run_for c (n - 1) w)"
proof (cases "n = Suc 0")
  case True
  then show ?thesis using assms by (simp add: run_for_0 start_stuck)
next
  case False
  then obtain k where k: "n = Suc (Suc k)"
    using assms(5) by (metis not0_implies_Suc gr0_implies_Suc)
  have "pending c w (Suc k) (run_for c k w)"
    using assms k by (intro run_pending) simp_all
  then have "stuck w (Suc (Suc k)) p (animationFrame c (run_for c k w))"
    using assms(3,4) k by (intro frame_stuck[where m = "Suc k"]) simp_all
  then show ?thesis by (simp add: k run_for_Suc)
qed

lemma run_stuck:
  assumes "frames w = []" "\<forall>j<n. cfg_throws c j = None" "cfg_throws c n = Some p"
    "n mod cfg_cadence c = 0" "0 < n" "n \<le> cfg_total c" "n \<le> Suc k"
  shows "stuck w n p (run_for c k w)"
proof -
  have f: "stuck w n p (run_for c (n - 1) w)" using assms(1-6) by (rule run_thrown)
  then have "frames (run_for c (n - 1) w) = []" by (simp add: stuck_def)
  then have "run_for c (n - 1 + (k - (n - 1))) w = run_for c (n - 1) w"
    by (rule run_idle)
  moreover have "n - 1 + (k - (n - 1)) = k" using assms(5,7) by simp
  ultimately show ?thesis using f by simp
qed

lemma step_returns:
  assumes "cfg_throws c (Suc (vars w ! a)) = None" "a < length (vars w)"
  shows "in_zone False (step c a) w = Inr (settle (in_zone False (step c a) w))"
  using assms by (simp add: unit_defs settle_def)

lemma events_since_append: "trace w' = trace w @ evs \<Longrightarrow> events_since w w' = evs"
  by (simp add: events_since_def)

lemma start_any:
  assumes "cfg_throws c (Suc 0) = None"
  shows "runOutsideAngular c w = Inr (start_run c w)"
    and "vars (start_run c w) = vars w @ [Suc 0]"
    and "frames (start_run c w) =
      (if Suc 0 < cfg_total c then frames w @ [\<lparr>cell = length (vars w), task_zone = False\<rparr>]
       else frames w)"
    and "events_since w (start_run c w) = start_events @ step_events c (Suc 0)"
    and "loading (outputs (start_run c w)) = (Suc 0 < cfg_total c)"
    and "progress (outputs (start_run c w)) =
      (if \<not> Suc 0 < cfg_total c then 100
       else if Suc 0 mod cfg_cadence c = 0 then percent c (Suc 0) else 0)"
proof -
  obtain v where r: "runOutsideAngular c w = in_zone False (step c (length (vars w))) v"
    and v: "prepared w v"
    using start_unfold[of c w] by blast
  have n: "vars v ! length (vars w) = 0" using v by (simp add: prepared_def)
  have s: "start_run c w = settle (in_zone False (step c (length (vars w))) v)"
    by (simp add: start_run_def r)
  show "runOutsideAngular c w = Inr (start_run c w)"
    unfolding s r using assms n v by (intro step_returns) (simp_all add: prepared_def)
  have d: "unit_done c (length (vars w)) (Suc (vars v ! length (vars w))) v (start_run c w)"
    unfolding s using v assms by (intro step_quiet) (simp_all add: prepared_def)
  show "vars (start_run c w) = vars w @ [Suc 0]"
    using d v by (simp add: unit_done_def prepared_def)
  show "frames (start_run c w) =
      (if Suc 0 < cfg_total c then frames w @ [\<lparr>cell = length (vars w), task_zone = False\<rparr>]
       else frames w)"
    using d v by (simp add: unit_done_def prepared_def)
  have "trace (start_run c w) = trace w @ start_events @ step_events c (Suc 0)"
    using d v by (simp add: unit_done_def prepared_def)
  then show "events_since w (start_run c w) = start_events @ step_events c (Suc 0)"
    by (rule events_since_append)
  show "loading (outputs (start_run c w)) = (Suc 0 < cfg_total c)"
    using d v by (simp add: unit_done_def prepared_def)
  show "progress (outputs (start_run c w)) =
      (if \<not> Suc 0 < cfg_total c then 100
       else if Suc 0 mod cfg_cadence c = 0 then percent c (Suc 0) else 0)"
    using d v by (simp add: unit_done_def prepared_def)
qed


section \<open>The constants of the source\<close>

lemma source_quiet: "cfg_throws source_config j = None" "cfg_total source_config = 3000"
  "cfg_cadence source_config = 500"
  by (simp_all add: source_config_def quiet_def)

lemma start_source:
  "runOutsideAngular source_config w = Inr (start_run source_config w)"
  "vars (start_run source_config w) = vars w @ [1]"
  "frames (start_run source_config w) = frames w @ [\<lparr>cell = length (vars w), task_zone = False\<rparr>]"
  "events_since w (start_run source_config w) =
     start_events @ [\<lparr>ev_site = Work, ev_iter = 1, ev_write = InZone False\<rparr>]"
  "loading (outputs (start_run source_config w))"
  "progress (outputs (start_run source_config w)) = 0"
  using start_any[of source_config w]
  by (simp_all add: source_quiet step_events_def)

lemma initial_idle: "frames initial = []" "vars initial = []" "\<not> loading (outputs initial)"
  "trace initial = []"
  by (simp_all add: initial_def checkZone_def)

section \<open>Whole runs\<close>

lemma quiet_simps: "cfg_throws (quiet t d) j = None" "cfg_total (quiet t d) = t"
  "cfg_cadence (quiet t d) = d"
  by (simp_all add: quiet_def)

lemma run_cases:
  assumes "frames w = []" "0 < t"
  shows "(Suc k < t \<and> pending (quiet t d) w (Suc k) (run_for (quiet t d) k w)) \<or>
         (t \<le> Suc k \<and> finished (quiet t d) w (run_for (quiet t d) k w))"
proof (cases "Suc k < t")
  case True
  then have "pending (quiet t d) w (Suc k) (run_for (quiet t d) k w)"
    using assms by (intro run_pending) (simp_all add: quiet_simps)
  then show ?thesis using True by simp
next
  case False
  then have "finished (quiet t d) w (run_for (quiet t d) k w)"
    using assms by (intro run_finished) (simp_all add: quiet_simps)
  then show ?thesis using False by simp
qed

lemma run_vars:
  assumes "frames w = []" "0 < t"
  shows "vars (run_for (quiet t d) k w) = vars w @ [min (Suc k) t]"
  using run_cases[OF assms, of k d] by (auto simp: pending_def finished_def quiet_simps min_def)

lemma run_loading:
  assumes "frames w = []" "0 < t"
  shows "loading (outputs (run_for (quiet t d) k w)) = (Suc k < t)"
  using run_cases[OF assms, of k d] by (auto simp: pending_def finished_def)

lemma run_frames:
  assumes "frames w = []" "0 < t"
  shows "frames (run_for (quiet t d) k w) =
    (if Suc k < t then [\<lparr>cell = length (vars w), task_zone = False\<rparr>] else [])"
  using run_cases[OF assms, of k d] by (auto simp: pending_def finished_def)

lemma run_zone:
  assumes "frames w = []" "0 < t"
  shows "inAngularZone (outputs (run_for (quiet t d) k w)) = (Suc k mod d = 0 \<or> t \<le> Suc k)"
  using run_cases[OF assms, of k d] by (auto simp: pending_def finished_def quiet_simps)

lemma run_events:
  assumes "frames w = []" "0 < t"
  shows "events_since w (run_for (quiet t d) k w) =
    start_events @ concat (map (step_events (quiet t d)) [1..<Suc (min (Suc k) t)])"
  using run_cases[OF assms, of k d]
  by (auto simp: pending_def finished_def quiet_simps min_def events_since_def)

lemma published_append: "published (xs @ ys) = published xs @ published ys"
  by (simp add: published_def)

lemma published_start: "published start_events = [(Start, 0, 0)]"
  by (simp add: published_def start_events_def)

lemma published_step:
  "published (step_events c n) =
     (if n mod cfg_cadence c = 0 then [(Checkpoint, n, percent c n)] else []) @
     (if n < cfg_total c then [] else [(Completion, n, 100)])"
  by (simp add: published_def step_events_def)

lemma published_units:
  assumes "0 < cfg_cadence c" "m \<le> cfg_total c"
  shows "published (concat (map (step_events c) [1..<Suc m])) =
     map (\<lambda>j. (Checkpoint, j * cfg_cadence c, percent c (j * cfg_cadence c)))
       [1..<Suc (m div cfg_cadence c)] @
     (if m < cfg_total c \<or> m = 0 then [] else [(Completion, m, 100)])"
  using assms(2)
proof (induction m)
  case 0
  then show ?case by (simp add: published_def)
next
  case (Suc m)
  have u: "[1..<Suc (Suc m)] = [1..<Suc m] @ [Suc m]" by simp
  from Suc have ih: "published (concat (map (step_events c) [1..<Suc m])) =
     map (\<lambda>j. (Checkpoint, j * cfg_cadence c, percent c (j * cfg_cadence c)))
       [1..<Suc (m div cfg_cadence c)]" by simp
  have e: "published (concat (map (step_events c) [1..<Suc (Suc m)])) =
     map (\<lambda>j. (Checkpoint, j * cfg_cadence c, percent c (j * cfg_cadence c)))
       [1..<Suc (m div cfg_cadence c)] @ published (step_events c (Suc m))"
    unfolding u map_append concat_append published_append ih by simp
  show ?case
  proof (cases "Suc m mod cfg_cadence c = 0")
    case True
    then have q: "Suc m div cfg_cadence c = Suc (m div cfg_cadence c)"
      by (simp add: div_Suc)
    have "Suc m div cfg_cadence c * cfg_cadence c = Suc m"
      using True div_mult_mod_eq[of "Suc m" "cfg_cadence c"] by simp
    then have r: "Suc (m div cfg_cadence c) * cfg_cadence c = Suc m"
      unfolding q .
    have v: "[1..<Suc (Suc (m div cfg_cadence c))] =
      [1..<Suc (m div cfg_cadence c)] @ [Suc (m div cfg_cadence c)]" by simp
    show ?thesis
      unfolding e q v map_append published_step using True r by simp
  next
    case False
    then have q: "Suc m div cfg_cadence c = m div cfg_cadence c"
      by (simp add: div_Suc)
    show ?thesis
      unfolding e q published_step using False by simp
  qed
qed

lemma percent_nat:
  assumes "0 < cfg_total c"
  shows "percent c n = int ((200 * n + cfg_total c) div (2 * cfg_total c))"
proof -
  have "(of_nat n / of_nat (cfg_total c)) * 100 + 1 / 2 =
        (of_nat (200 * n + cfg_total c) / of_nat (2 * cfg_total c) :: rat)"
    using assms by (simp add: field_simps)
  then show ?thesis
    unfolding percent_def Math_round_def by (simp only: floor_divide_of_nat_eq)
qed

lemma percent_source:
  "percent source_config 0 = 0"
  "percent source_config 500 = 17" "percent source_config 1000 = 33"
  "percent source_config 1500 = 50" "percent source_config 2000 = 67"
  "percent source_config 2500 = 83" "percent source_config 3000 = 100"
  by (simp_all add: percent_nat source_quiet)

lemma percent_scenario:
  "percent scenario_config 5 = 50" "percent scenario_config 10 = 100"
  by (simp_all add: percent_nat scenario_config_def quiet_simps)

lemma published_run:
  assumes "frames w = []" "0 < t" "0 < d" "t \<le> Suc k"
  shows "published (events_since w (run_for (quiet t d) k w)) =
    (Start, 0, 0) #
    map (\<lambda>j. (Checkpoint, j * d, percent (quiet t d) (j * d))) [1..<Suc (t div d)] @
    [(Completion, t, 100)]"
proof -
  have "min (Suc k) t = t" using assms(4) by simp
  then have "events_since w (run_for (quiet t d) k w) =
    start_events @ concat (map (step_events (quiet t d)) [1..<Suc t])"
    using run_events[OF assms(1,2), of d k] by simp
  then show ?thesis
    using assms(2,3) published_units[of "quiet t d" t]
    by (simp add: published_append published_start quiet_simps)
qed

lemma upt_1_7: "[Suc 0..<7] = [1, 2, 3, 4, 5, 6]"
  by (simp add: upt_rec)

lemma upt_1_3: "[Suc 0..<3] = [1, 2]"
  by (simp add: upt_rec)

lemma published_source:
  assumes "frames w = []" "2999 \<le> k"
  shows "published (events_since w (run_for source_config k w)) =
    [(Start, 0, 0), (Checkpoint, 500, 17), (Checkpoint, 1000, 33), (Checkpoint, 1500, 50),
     (Checkpoint, 2000, 67), (Checkpoint, 2500, 83), (Checkpoint, 3000, 100),
     (Completion, 3000, 100)]"
proof -
  have "(3000::nat) div 500 = 6" by simp
  then show ?thesis
    using published_run[of w 3000 500 k] assms percent_source
    by (simp add: source_config_def upt_1_7 del: upt_Suc)
qed

lemma published_scenario:
  assumes "frames w = []" "9 \<le> k"
  shows "published (events_since w (run_for scenario_config k w)) =
    [(Start, 0, 0), (Checkpoint, 5, 50), (Checkpoint, 10, 100), (Completion, 10, 100)]"
proof -
  have "(10::nat) div 5 = 2" by simp
  then show ?thesis
    using published_run[of w 10 5 k] assms percent_scenario
    by (simp add: scenario_config_def upt_1_3 del: upt_Suc)
qed

lemma toggles_append: "toggles (xs @ ys) = toggles xs @ toggles ys"
  by (simp add: toggles_def)

lemma toggles_step:
  "toggles (step_events c n) = (if n < cfg_total c then [] else [(Completion, n, False)])"
  by (auto simp: toggles_def step_events_def)

lemma toggles_units:
  assumes "m \<le> cfg_total c"
  shows "toggles (concat (map (step_events c) [1..<Suc m])) =
     (if m < cfg_total c \<or> m = 0 then [] else [(Completion, m, False)])"
  using assms
proof (induction m)
  case 0
  then show ?case by (simp add: toggles_def)
next
  case (Suc m)
  have u: "[1..<Suc (Suc m)] = [1..<Suc m] @ [Suc m]" by simp
  from Suc have ih: "toggles (concat (map (step_events c) [1..<Suc m])) = []" by simp
  show ?case
    unfolding u map_append concat_append toggles_append ih by (simp add: toggles_step)
qed

lemma toggles_run:
  assumes "frames w = []" "0 < t"
  shows "toggles (events_since w (run_for (quiet t d) k w)) =
    (Start, 0, True) # (if Suc k < t then [] else [(Completion, t, False)])"
proof -
  have "toggles (events_since w (run_for (quiet t d) k w)) =
    toggles start_events @
    toggles (concat (map (step_events (quiet t d)) [1..<Suc (min (Suc k) t)]))"
    unfolding run_events[OF assms] by (simp add: toggles_def)
  also have "toggles start_events = [(Start, 0, True)]"
    by (simp add: toggles_def start_events_def)
  also have "toggles (concat (map (step_events (quiet t d)) [1..<Suc (min (Suc k) t)])) =
    (if Suc k < t then [] else [(Completion, t, False)])"
    using toggles_units[of "min (Suc k) t" "quiet t d"] assms(2)
    by (simp add: quiet_simps min_def)
  finally show ?thesis by simp
qed

lemma requeries_concat:
  "requeries (concat (map (step_events c) ns)) = concat (map (unit_requeries c) ns)"
  by (induction ns) (simp_all add: requeries_def step_events_def unit_requeries_def)

lemma requeries_run:
  assumes "frames w = []" "0 < t"
  shows "requeries (events_since w (run_for (quiet t d) k w)) =
    (Start, 0) # concat (map (unit_requeries (quiet t d)) [1..<Suc (min (Suc k) t)])"
proof -
  have "requeries (events_since w (run_for (quiet t d) k w)) =
    requeries start_events @
    requeries (concat (map (step_events (quiet t d)) [1..<Suc (min (Suc k) t)]))"
    unfolding run_events[OF assms] by (simp add: requeries_def)
  then show ?thesis
    by (simp add: requeries_concat) (simp add: requeries_def start_events_def)
qed

lemma event_of_run:
  assumes "frames w = []" "0 < t" "e \<in> set (events_since w (run_for (quiet t d) k w))"
  shows "e \<in> set start_events \<or>
    (\<exists>n. 0 < n \<and> n \<le> Suc k \<and> n \<le> t \<and> e \<in> set (step_events (quiet t d) n))"
proof (cases "e \<in> set start_events")
  case True
  then show ?thesis by simp
next
  case False
  then have "e \<in> set (concat (map (step_events (quiet t d)) [1..<Suc (min (Suc k) t)]))"
    using assms(3) unfolding run_events[OF assms(1,2)] set_append by blast
  then obtain n where "n \<in> set [1..<Suc (min (Suc k) t)]" "e \<in> set (step_events (quiet t d) n)"
    unfolding set_concat set_map by blast
  moreover from this(1) have "0 < n \<and> n \<le> Suc k \<and> n \<le> t" by (auto simp del: upt_Suc)
  ultimately show ?thesis by blast
qed

lemma publication_of_run:
  assumes "frames w = []" "0 < t" "x \<in> set (published (events_since w (run_for (quiet t d) k w)))"
  shows "x = (Start, 0, 0) \<or>
    (\<exists>n. 0 < n \<and> n \<le> Suc k \<and> n \<le> t \<and> x \<in> set (published (step_events (quiet t d) n)))"
proof -
  from assms(3) obtain e where e: "e \<in> set (events_since w (run_for (quiet t d) k w))"
    and x: "x \<in> set (progress_of e)"
    by (auto simp: published_def)
  from event_of_run[OF assms(1,2) e] show ?thesis
  proof
    assume "e \<in> set start_events"
    then show ?thesis using x by (auto simp: start_events_def)
  next
    assume "\<exists>n. 0 < n \<and> n \<le> Suc k \<and> n \<le> t \<and> e \<in> set (step_events (quiet t d) n)"
    then obtain n where "0 < n" "n \<le> Suc k" "n \<le> t" "e \<in> set (step_events (quiet t d) n)"
      by blast
    then show ?thesis using x unfolding published_def by auto
  qed
qed

lemma percent_bounds:
  assumes "0 < cfg_total c" "n \<le> cfg_total c"
  shows "0 \<le> percent c n" "percent c n \<le> 100"
proof -
  show "0 \<le> percent c n" by (simp add: percent_nat[OF assms(1)])
  have "200 * n + cfg_total c < 101 * (2 * cfg_total c)" using assms by simp
  then have "(200 * n + cfg_total c) div (2 * cfg_total c) < 101"
    using assms(1) by (simp add: div_less_iff_less_mult)
  then show "percent c n \<le> 100" by (simp add: percent_nat[OF assms(1)])
qed

lemma zone_write_of_unit:
  assumes "e \<in> set (step_events c n)" "ev_write e = InZone b"
  shows "b = (ev_site e = Checkpoint \<or> ev_site e = Completion)"
  using assms by (auto simp: step_events_def split: if_splits)

lemma zone_write_of_start:
  assumes "e \<in> set start_events" "ev_write e = InZone b"
  shows "b = (ev_site e = Checkpoint \<or> ev_site e = Completion)"
  using assms by (auto simp: start_events_def)

lemma upt_1_6: "[Suc 0..<6] = [1, 2, 3, 4, 5]"
  by (simp add: upt_rec)

lemma run_done:
  assumes "frames w = []" "0 < t" "t \<le> Suc k"
  shows "frames (run_for (quiet t d) k w) = []"
    and "progress (outputs (run_for (quiet t d) k w)) = 100"
proof -
  have "finished (quiet t d) w (run_for (quiet t d) k w)"
    using assms by (intro run_finished) (simp_all add: quiet_simps)
  then show "frames (run_for (quiet t d) k w) = []"
    and "progress (outputs (run_for (quiet t d) k w)) = 100"
    by (simp_all add: finished_def)
qed

lemma first_run_done:
  "frames (run_for source_config 2999 initial) = []"
  "progress (outputs (run_for source_config 2999 initial)) = 100"
  using run_done[where w = initial and t = 3000 and d = 500 and k = 2999]
  by (simp_all add: initial_idle source_config_def)

section \<open>The claims\<close>

text \<open>
  Claim C1 says that a run with the constants of the source publishes \<open>progress\<close> exactly
  6 times. On the fresh component the run sets the signal 8 times: 0 at the start, the six
  values of the periodic callback, and 100 once more in the final callback, which runs at
  iteration 3000 after the periodic one. A second run, started when the first has ended
  and \<open>progress\<close> is 100, sets it the same 8 times, the 0 included.
\<close>

theorem C1_progress_published_eight_times:
  "published (events_since initial (run_for source_config 2999 initial)) =
     [(Start, 0, 0), (Checkpoint, 500, 17), (Checkpoint, 1000, 33), (Checkpoint, 1500, 50),
      (Checkpoint, 2000, 67), (Checkpoint, 2500, 83), (Checkpoint, 3000, 100),
      (Completion, 3000, 100)] \<and>
   published_at 3000 (events_since initial (run_for source_config 2999 initial)) =
     [(Checkpoint, 3000, 100), (Completion, 3000, 100)] \<and>
   progress (outputs (run_for source_config 2999 initial)) = 100 \<and>
   published (events_since (run_for source_config 2999 initial)
       (run_for source_config 2999 (run_for source_config 2999 initial))) =
     [(Start, 0, 0), (Checkpoint, 500, 17), (Checkpoint, 1000, 33), (Checkpoint, 1500, 50),
      (Checkpoint, 2000, 67), (Checkpoint, 2500, 83), (Checkpoint, 3000, 100),
      (Completion, 3000, 100)]"
  by (simp add: published_source initial_idle first_run_done published_at_def)

text \<open>
  Claim C1, amended. In every run with total 3000 and cadence 500, started when no other
  run is pending and observed to its end, the periodic callback publishes \<open>progress\<close>
  exactly 6 times, with the values 17, 33, 50, 67, 83, 100 in this order, each equal to
  \<open>round (i / total * 100)\<close> at \<open>i\<close> = 500, 1000, ..., 3000. Besides these the start
  publishes 0 before the first unit and the final callback publishes 100 once more at
  iteration 3000: 8 publications, in non-decreasing order.
\<close>

theorem C1_progress_publications_of_a_run:
  assumes "frames w = []" and "2999 \<le> k"
  shows "published (events_since w (run_for source_config k w)) =
      (Start, 0, 0) #
      map (\<lambda>n. (Checkpoint, n, percent source_config n)) [500, 1000, 1500, 2000, 2500, 3000] @
      [(Completion, 3000, 100)] \<and>
    map (percent source_config) [500, 1000, 1500, 2000, 2500, 3000] = [17, 33, 50, 67, 83, 100] \<and>
    filter (\<lambda>x. fst x = Checkpoint) (published (events_since w (run_for source_config k w))) =
      [(Checkpoint, 500, 17), (Checkpoint, 1000, 33), (Checkpoint, 1500, 50),
       (Checkpoint, 2000, 67), (Checkpoint, 2500, 83), (Checkpoint, 3000, 100)] \<and>
    sorted (map (\<lambda>x. snd (snd x)) (published (events_since w (run_for source_config k w))))"
  using assms by (simp add: published_source percent_source)

theorem C1_progress_publications_of_a_run_witness:
  "frames initial = [] \<and> (2999::nat) \<le> 4000 \<and>
   map (\<lambda>x. snd (snd x)) (published (events_since initial (run_for source_config 4000 initial))) =
     [0, 17, 33, 50, 67, 83, 100, 100]"
  using C1_progress_publications_of_a_run[where w = initial and k = 4000]
  by (simp add: initial_idle percent_source)

text \<open>
  Claim C2 says that a second start during a run fails with a precondition error. The
  source has no guard. After a first start on the fresh component \<open>loading\<close> is true; a
  second call returns normally, and then two counters exist and two callbacks wait for the
  next frame.
\<close>

theorem C2_second_start_counterexample:
  "loading (outputs (start_run source_config initial)) \<and>
   runOutsideAngular source_config (start_run source_config initial) =
     Inr (start_run source_config (start_run source_config initial)) \<and>
   vars (start_run source_config (start_run source_config initial)) = [1, 1] \<and>
   map cell (frames (start_run source_config (start_run source_config initial))) = [0, 1]"
  by (simp add: start_source initial_idle)

text \<open>
  Claim C2, amended. In every state where a run is active (\<open>loading\<close> true), the call of
  \<open>runOutsideAngular\<close> is not refused: it returns normally, leaves \<open>loading\<close> true, sets
  \<open>progress\<close> back to 0 and starts a second loop with a counter of its own, which is 1 at
  the return. The counters and the registered callbacks of the runs that were active are
  untouched; the callback of the new loop is registered after them.
\<close>

theorem C2_second_start_is_not_refused:
  assumes "loading (outputs w)"
  shows "runOutsideAngular source_config w = Inr (start_run source_config w) \<and>
    loading (outputs (start_run source_config w)) \<and>
    progress (outputs (start_run source_config w)) = 0 \<and>
    take (length (vars w)) (vars (start_run source_config w)) = vars w \<and>
    vars (start_run source_config w) ! length (vars w) = 1 \<and>
    take (length (frames w)) (frames (start_run source_config w)) = frames w \<and>
    drop (length (frames w)) (frames (start_run source_config w)) =
      [\<lparr>cell = length (vars w), task_zone = False\<rparr>]"
  by (simp add: start_source)

theorem C2_second_start_is_not_refused_witness:
  "loading (outputs (start_run source_config initial)) \<and>
   runOutsideAngular source_config (start_run source_config initial) =
     Inr (start_run source_config (start_run source_config initial)) \<and>
   progress (outputs (start_run source_config (start_run source_config initial))) = 0 \<and>
   length (frames (start_run source_config (start_run source_config initial))) = 2"
  using C2_second_start_is_not_refused[of "start_run source_config initial"]
  by (simp add: start_source initial_idle)

text \<open>
  Claim C3 says that with total 10 and cadence 5 nothing fires twice at iteration 10. The
  algorithm of \<open>step\<close> tests \<open>i % cadence\<close> and \<open>i < total\<close> independently: at iteration
  10 the periodic callback publishes 100 and then the final callback publishes 100 again.
\<close>

theorem C3_two_callbacks_at_iteration_10:
  "published_at 10 (events_since initial (run_for scenario_config 9 initial)) =
     [(Checkpoint, 10, 100), (Completion, 10, 100)] \<and>
   length (published_at 10 (events_since initial (run_for scenario_config 9 initial))) = 2"
  by (simp add: published_scenario initial_idle published_at_def)

text \<open>
  Claim C3, amended. In a run with total 10 and cadence 5, started when no other run is
  pending and observed to its end, the periodic callback fires exactly at iteration 5,
  publishing 50, and at iteration 10, publishing 100; at iteration 10 the final callback
  fires too, after the periodic one, sets \<open>loading\<close> to false and publishes 100 a second
  time. Each of the two callbacks fires once at iteration 10.
\<close>

theorem C3_scenario_publications:
  assumes "frames w = []" and "9 \<le> k"
  shows "published (events_since w (run_for scenario_config k w)) =
      [(Start, 0, 0), (Checkpoint, 5, 50), (Checkpoint, 10, 100), (Completion, 10, 100)] \<and>
    published_at 5 (events_since w (run_for scenario_config k w)) = [(Checkpoint, 5, 50)] \<and>
    published_at 10 (events_since w (run_for scenario_config k w)) =
      [(Checkpoint, 10, 100), (Completion, 10, 100)] \<and>
    toggles (events_since w (run_for scenario_config k w)) =
      [(Start, 0, True), (Completion, 10, False)] \<and>
    \<not> loading (outputs (run_for scenario_config k w))"
proof -
  have t: "toggles (events_since w (run_for scenario_config k w)) =
      [(Start, 0, True), (Completion, 10, False)]"
    using assms toggles_run[where w = w and t = 10 and d = 5 and k = k]
    by (simp add: scenario_config_def)
  have l: "\<not> loading (outputs (run_for scenario_config k w))"
    using assms run_loading[where w = w and t = 10 and d = 5 and k = k]
    by (simp add: scenario_config_def)
  show ?thesis
    using l by (simp add: published_scenario[OF assms] t published_at_def)
qed

theorem C3_scenario_publications_witness:
  "frames initial = [] \<and> (9::nat) \<le> 9 \<and>
   published (events_since initial (run_for scenario_config 9 initial)) =
      [(Start, 0, 0), (Checkpoint, 5, 50), (Checkpoint, 10, 100), (Completion, 10, 100)] \<and>
   toggles (events_since initial (run_for scenario_config 9 initial)) =
      [(Start, 0, True), (Completion, 10, False)]"
  using C3_scenario_publications[where w = initial and k = 9]
  by (simp add: initial_idle)

text \<open>
  Claim C4. In every run (any positive total, any cadence, nothing thrown, no other run
  pending at the start), after the start and \<open>k\<close> frames the counter of the run is
  \<open>min (k + 1) total\<close>: it is \<open>k + 1\<close> after the unit \<open>k + 1\<close>, never above the total, and
  stays at the total when the run has ended. \<open>loading\<close> is true after every unit before the
  one that reaches the total, and false from that unit on.
\<close>

theorem C4_iteration_bounded_loading_until_total:
  assumes "frames w = []" "0 < t"
  shows "vars (run_for (quiet t d) k w) ! length (vars w) = min (Suc k) t \<and>
    0 \<le> vars (run_for (quiet t d) k w) ! length (vars w) \<and>
    vars (run_for (quiet t d) k w) ! length (vars w) \<le> t \<and>
    loading (outputs (run_for (quiet t d) k w)) = (Suc k < t)"
  using assms by (simp add: run_vars run_loading)

theorem C4_iteration_bounded_loading_until_total_witness:
  "frames initial = [] \<and> (0::nat) < 3000 \<and>
   vars (run_for source_config 2998 initial) ! length (vars initial) = 2999 \<and>
   loading (outputs (run_for source_config 2998 initial)) \<and>
   vars (run_for source_config 2999 initial) ! length (vars initial) = 3000 \<and>
   \<not> loading (outputs (run_for source_config 2999 initial)) \<and>
   vars (run_for source_config 5000 initial) ! length (vars initial) = 3000"
  using C4_iteration_bounded_loading_until_total[where w = initial and t = 3000 and d = 500 and k = 2998]
    C4_iteration_bounded_loading_until_total[where w = initial and t = 3000 and d = 500 and k = 2999]
    C4_iteration_bounded_loading_until_total[where w = initial and t = 3000 and d = 500 and k = 5000]
  by (simp add: initial_idle source_config_def)

text \<open>
  Claim C5. In every run with the constants of the source, started when no other run is
  pending and observed for any number of frames, every value written to \<open>progress\<close> is
  between 0 and 100 and equals \<open>round (i / total * 100)\<close> for the value \<open>i\<close> of the counter
  at the write, and \<open>i\<close> is a multiple of 500. The writes are the 0 of the start (before
  the first unit, \<open>i\<close> = 0), those of the periodic callback and the one of the final
  callback at \<open>i\<close> = 3000; the body of \<open>step\<close> outside the callbacks never writes it.
\<close>

theorem C5_published_values:
  assumes "frames w = []"
  shows "\<forall>x \<in> set (published (events_since w (run_for source_config k w))).
    (case x of (s, n, v) \<Rightarrow>
       0 \<le> v \<and> v \<le> 100 \<and> v = percent source_config n \<and> n mod 500 = 0 \<and>
       (s = Start \<and> n = 0 \<or>
        s = Checkpoint \<and> 0 < n \<and> n \<le> 3000 \<and> n mod 500 = 0 \<or>
        s = Completion \<and> n = 3000))"
proof
  fix x
  assume "x \<in> set (published (events_since w (run_for source_config k w)))"
  then have "x = (Start, 0, 0) \<or>
    (\<exists>n. 0 < n \<and> n \<le> Suc k \<and> n \<le> 3000 \<and> x \<in> set (published (step_events source_config n)))"
    using publication_of_run[where w = w and t = 3000 and d = 500 and k = k and x = x] assms
    by (simp add: source_config_def)
  then show "case x of (s, n, v) \<Rightarrow>
       0 \<le> v \<and> v \<le> 100 \<and> v = percent source_config n \<and> n mod 500 = 0 \<and>
       (s = Start \<and> n = 0 \<or>
        s = Checkpoint \<and> 0 < n \<and> n \<le> 3000 \<and> n mod 500 = 0 \<or>
        s = Completion \<and> n = 3000)"
  proof
    assume "x = (Start, 0, 0)"
    then show ?thesis by (simp add: percent_source)
  next
    assume "\<exists>n. 0 < n \<and> n \<le> Suc k \<and> n \<le> 3000 \<and> x \<in> set (published (step_events source_config n))"
    then obtain n where n: "0 < n" "n \<le> 3000" "x \<in> set (published (step_events source_config n))"
      by blast
    have b: "0 \<le> percent source_config n" "percent source_config n \<le> 100"
      using percent_bounds[of source_config n] n(2) by (simp_all add: source_quiet)
    from n(3) have "x = (Checkpoint, n, percent source_config n) \<and> n mod 500 = 0 \<or>
      x = (Completion, n, 100) \<and> n = 3000"
      using n(2) by (auto simp: published_step source_quiet split: if_splits)
    then show ?thesis using n(1,2) b by (auto simp: percent_source)
  qed
qed

theorem C5_published_values_witness:
  "frames initial = [] \<and>
   (Checkpoint, 500, 17) \<in> set (published (events_since initial (run_for source_config 2999 initial))) \<and>
   (17::int) = percent source_config 500 \<and> (500::nat) mod 500 = 0"
  using C5_published_values[where w = initial and k = 2999]
  by (simp add: initial_idle published_source percent_source)

text \<open>
  Claim C6. In every run (any positive total, any cadence, nothing thrown) started when no
  run is pending and \<open>loading\<close> is false, \<open>loading\<close> is written once by the start, to true,
  and once by the final callback at the iteration that reaches the total, to false, and by
  nothing else; it is true after every unit before that one and false from then on. Over
  the whole run the signal goes false, true, false.
\<close>

theorem C6_loading_toggles_once:
  assumes "frames w = []" and "\<not> loading (outputs w)" and "0 < t"
  shows "toggles (events_since w (run_for (quiet t d) k w)) =
      (Start, 0, True) # (if Suc k < t then [] else [(Completion, t, False)]) \<and>
    loading (outputs (run_for (quiet t d) k w)) = (Suc k < t) \<and>
    (t \<le> Suc k \<longrightarrow>
      loading (outputs w) # map (\<lambda>x. snd (snd x)) (toggles (events_since w (run_for (quiet t d) k w))) =
        [False, True, False])"
  using assms by (simp add: toggles_run run_loading)

theorem C6_loading_toggles_once_witness:
  "frames initial = [] \<and> \<not> loading (outputs initial) \<and> (0::nat) < 3000 \<and>
   toggles (events_since initial (run_for source_config 2998 initial)) = [(Start, 0, True)] \<and>
   loading (outputs (run_for source_config 2998 initial)) \<and>
   (3000::nat) \<le> Suc 2999 \<and>
   toggles (events_since initial (run_for source_config 2999 initial)) =
     [(Start, 0, True), (Completion, 3000, False)] \<and>
   \<not> loading (outputs (run_for source_config 2999 initial))"
  using C6_loading_toggles_once[where w = initial and t = 3000 and d = 500 and k = 2998]
    C6_loading_toggles_once[where w = initial and t = 3000 and d = 500 and k = 2999]
  by (simp add: initial_idle source_config_def)

text \<open>
  Claim C7. Let the periodic callback of iteration \<open>n\<close> throw, at any of its calls, in a
  run where nothing threw before. Then the exception leaves \<open>step\<close> and reaches the host
  uncaught; from the frame of that unit on no callback is registered, the counter stays at
  \<open>n\<close>, further frames change nothing, and \<open>loading\<close> is still true.
\<close>

theorem C7_exception_in_checkpoint_leaves_run_stuck:
  assumes "frames w = []"
    and "cfg_throws c n = Some p" and "\<forall>j<n. cfg_throws c j = None"
    and "n mod cfg_cadence c = 0" and "0 < n" and "n \<le> cfg_total c" and "n \<le> Suc k"
  shows "frames (run_for c k w) = [] \<and>
    vars (run_for c k w) = vars w @ [n] \<and>
    loading (outputs (run_for c k w)) \<and>
    uncaught (run_for c k w) = uncaught w @ [Thrown n p] \<and>
    run_for c (Suc k) w = run_for c k w"
proof -
  have "stuck w n p (run_for c k w)" using assms by (intro run_stuck) simp_all
  then show ?thesis by (simp add: stuck_def run_for_Suc frame_idle)
qed

theorem C7_exception_in_checkpoint_leaves_run_stuck_witness:
  "frames initial = [] \<and> cfg_throws (faulty 3000 500 1000 AtSet) 1000 = Some AtSet \<and>
   cfg_throws (faulty 3000 500 1000 AtSet) 500 = None \<and>
   1000 mod cfg_cadence (faulty 3000 500 1000 AtSet) = 0 \<and>
   1000 \<le> cfg_total (faulty 3000 500 1000 AtSet) \<and>
   frames (run_for (faulty 3000 500 1000 AtSet) 2999 initial) = [] \<and>
   vars (run_for (faulty 3000 500 1000 AtSet) 2999 initial) = [1000] \<and>
   loading (outputs (run_for (faulty 3000 500 1000 AtSet) 2999 initial)) \<and>
   uncaught (run_for (faulty 3000 500 1000 AtSet) 2999 initial) = [Thrown 1000 AtSet]"
  using C7_exception_in_checkpoint_leaves_run_stuck[where w = initial and c = "faulty 3000 500 1000 AtSet"
      and n = 1000 and p = AtSet and k = 2999]
  by (simp add: initial_idle faulty_def initial_def checkZone_def)

text \<open>
  Claim C8 says that the output \<open>inAngularZone\<close> is true only while a checkpoint or
  completion callback is executing. The callback writes true at line 118 and returns;
  nothing writes the signal again before line 110 of the next frame. With the constants of
  the source, after the start and 499 frames (the unit of iteration 500 has ended, the next
  one is only registered and \<open>loading\<close> is true) the output is true; when the run has
  ended it is true and stays true, with no callback registered.
\<close>

theorem C8_output_true_after_callback_returned:
  "inAngularZone (outputs (run_for source_config 499 initial)) \<and>
   frames (run_for source_config 499 initial) = [\<lparr>cell = 0, task_zone = False\<rparr>] \<and>
   loading (outputs (run_for source_config 499 initial)) \<and>
   inAngularZone (outputs (run_for source_config 2999 initial)) \<and>
   frames (run_for source_config 2999 initial) = [] \<and>
   inAngularZone (outputs (run_for source_config 5000 initial)) \<and>
   frames (run_for source_config 5000 initial) = []"
  using run_zone[where w = initial and t = 3000 and d = 500]
    run_frames[where w = initial and t = 3000 and d = 500]
    run_loading[where w = initial and t = 3000 and d = 500]
  by (simp add: initial_idle source_config_def)

text \<open>
  Claim C8, amended. In every run (any positive total, any cadence, nothing thrown, no other
  run pending at the start), observed for any number of frames:
  every write to \<open>inAngularZone\<close> writes true exactly when it is made inside the periodic
  or the final callback, and false otherwise;
  the value written stays until the next call of \<open>checkZone\<close>, so the output is true
  after a unit exactly when that unit ran a callback: it is false after every unit that is
  neither a checkpoint nor the last one, true after a checkpoint unit until the next unit
  re-queries, and true from the final callback on;
  \<open>checkZone\<close> is called once by the start, once in every unit right after the
  increment, once inside every periodic callback and once inside the final callback, and
  nowhere else.
\<close>

theorem C8_zone_output_follows_callbacks:
  assumes "frames w = []" and "0 < t"
  shows "(\<forall>e \<in> set (events_since w (run_for (quiet t d) k w)). \<forall>b.
       ev_write e = InZone b \<longrightarrow> b = (ev_site e = Checkpoint \<or> ev_site e = Completion)) \<and>
    (Suc k < t \<and> Suc k mod d \<noteq> 0 \<longrightarrow> \<not> inAngularZone (outputs (run_for (quiet t d) k w))) \<and>
    inAngularZone (outputs (run_for (quiet t d) k w)) = (Suc k mod d = 0 \<or> t \<le> Suc k) \<and>
    requeries (events_since w (run_for (quiet t d) k w)) =
      (Start, 0) # concat (map (unit_requeries (quiet t d)) [1..<Suc (min (Suc k) t)])"
proof (intro conjI ballI allI impI)
  fix e b
  assume e: "e \<in> set (events_since w (run_for (quiet t d) k w))" and b: "ev_write e = InZone b"
  from event_of_run[OF assms e] show "b = (ev_site e = Checkpoint \<or> ev_site e = Completion)"
    using b zone_write_of_unit zone_write_of_start by blast
next
  assume "Suc k < t \<and> Suc k mod d \<noteq> 0"
  then show "\<not> inAngularZone (outputs (run_for (quiet t d) k w))"
    using assms by (simp add: run_zone)
next
  show "inAngularZone (outputs (run_for (quiet t d) k w)) = (Suc k mod d = 0 \<or> t \<le> Suc k)"
    using assms by (rule run_zone)
next
  show "requeries (events_since w (run_for (quiet t d) k w)) =
      (Start, 0) # concat (map (unit_requeries (quiet t d)) [1..<Suc (min (Suc k) t)])"
    using assms by (rule requeries_run)
qed

theorem C8_zone_output_follows_callbacks_witness:
  "frames initial = [] \<and> (0::nat) < 10 \<and>
   \<lparr>ev_site = Checkpoint, ev_iter = 5, ev_write = InZone True\<rparr>
     \<in> set (events_since initial (run_for (quiet 10 5) 4 initial)) \<and>
   Suc 3 < 10 \<and> Suc 3 mod 5 \<noteq> 0 \<and> \<not> inAngularZone (outputs (run_for (quiet 10 5) 3 initial)) \<and>
   requeries (events_since initial (run_for (quiet 10 5) 4 initial)) =
     [(Start, 0), (Work, 1), (Work, 2), (Work, 3), (Work, 4), (Work, 5), (Checkpoint, 5)]"
proof -
  have p: "(0::nat) < 10" by simp
  note a = C8_zone_output_follows_callbacks[where w = initial and t = 10 and d = 5 and k = 4,
      OF initial_idle(1) p]
  note b = C8_zone_output_follows_callbacks[where w = initial and t = 10 and d = 5 and k = 3,
      OF initial_idle(1) p]
  have m: "\<lparr>ev_site = Checkpoint, ev_iter = 5, ev_write = InZone True\<rparr>
     \<in> set (events_since initial (run_for (quiet 10 5) 4 initial))"
    unfolding run_events[OF initial_idle(1) p]
    by (simp add: upt_1_6 step_events_def quiet_simps del: upt_Suc)
  have z: "\<not> inAngularZone (outputs (run_for (quiet 10 5) 3 initial))"
    using b[THEN conjunct2, THEN conjunct1] by simp
  have r: "requeries (events_since initial (run_for (quiet 10 5) 4 initial)) =
     [(Start, 0), (Work, 1), (Work, 2), (Work, 3), (Work, 4), (Work, 5), (Checkpoint, 5)]"
    using a[THEN conjunct2, THEN conjunct2, THEN conjunct2]
    by (simp add: unit_requeries_def quiet_simps upt_1_6 del: upt_Suc)
  show ?thesis using m z r by (simp add: initial_idle)
qed

text \<open>
  Claim C9. In every state, \<open>checkZone\<close> writes the signal \<open>inAngularZone\<close> and nothing
  else: \<open>progress\<close>, \<open>loading\<close>, the counters of the runs, the registered callbacks
  and the rest of the state are as before, and the signal holds what
  \<open>NgZone.isInAngularZone\<close> answered.
\<close>

theorem C9_checkZone_writes_only_inAngularZone:
  "inAngularZone (outputs (checkZone w)) = isInAngularZone w \<and>
   progress (outputs (checkZone w)) = progress (outputs w) \<and>
   loading (outputs (checkZone w)) = loading (outputs w) \<and>
   vars (checkZone w) = vars w \<and>
   frames (checkZone w) = frames w \<and>
   trace (checkZone w) = trace w \<and>
   zone (checkZone w) = zone w \<and>
   timeouts (checkZone w) = timeouts w \<and>
   uncaught (checkZone w) = uncaught w"
  by (simp add: checkZone_def)

text \<open>
  Claim C10. With the constants of the source, in every state, the call of
  \<open>runOutsideAngular\<close> returns normally; when it has returned, \<open>loading\<close> is true,
  \<open>progress\<close> is 0, the new counter is 1 (the first unit ran inside the call, with its
  re-query after the one of the start), and one callback more waits for the next frame: the
  second unit and those after it are left to the frame scheduler.
\<close>

theorem C10_start_runs_first_unit:
  "runOutsideAngular source_config w = Inr (start_run source_config w) \<and>
   loading (outputs (start_run source_config w)) \<and>
   progress (outputs (start_run source_config w)) = 0 \<and>
   vars (start_run source_config w) = vars w @ [1] \<and>
   1 \<le> vars (start_run source_config w) ! length (vars w) \<and>
   requeries (events_since w (start_run source_config w)) = [(Start, 0), (Work, 1)] \<and>
   frames (start_run source_config w) =
     frames w @ [\<lparr>cell = length (vars w), task_zone = False\<rparr>]"
  by (simp add: start_source requeries_def start_events_def)

end
